theory Spec2Isabelle
  imports Main
begin

section \<open>JSON values and the Python operations the program applies to them\<close>

text \<open>
  The program works on the value that \<^verbatim>\<open>json.load\<close> returns: \<^verbatim>\<open>None\<close>, a bool, an int,
  a float, a str, a list, or a dict with str keys. A dict is kept as the list of its
  entries in iteration order (Python dicts iterate in insertion order). A str is a list of
  characters, one \<open>char\<close> per code point, so \<open>length\<close> is Python's \<^verbatim>\<open>len\<close>; code points
  above 255 are outside the model. A float is carried as the text Python prints for it:
  the program only tests a float for truth and converts it with \<^verbatim>\<open>str\<close>.
\<close>

datatype json =
    JNull
  | JBool bool
  | JInt int
  | JFloat string
  | JStr string
  | JList "json list"
  | JDict "(string \<times> json) list"

datatype error = AttributeError | TypeError

text \<open>\<^verbatim>\<open>isinstance(v, dict)\<close>, \<^verbatim>\<open>isinstance(v, list)\<close> and Python truthiness (\<^verbatim>\<open>if v:\<close>).\<close>

fun is_dict :: "json \<Rightarrow> bool" where
  "is_dict (JDict _) = True"
| "is_dict _ = False"

fun is_list :: "json \<Rightarrow> bool" where
  "is_list (JList _) = True"
| "is_list _ = False"

fun truthy :: "json \<Rightarrow> bool" where
  "truthy JNull = False"
| "truthy (JBool b) = b"
| "truthy (JInt i) = (i \<noteq> 0)"
| "truthy (JFloat r) = (r \<noteq> ''0.0'' \<and> r \<noteq> ''-0.0'')"
| "truthy (JStr s) = (s \<noteq> [])"
| "truthy (JList xs) = (xs \<noteq> [])"
| "truthy (JDict kvs) = (kvs \<noteq> [])"

text \<open>
  \<^verbatim>\<open>obj.get(key, default)\<close>: only a dict has the method; on any other JSON value the
  attribute lookup raises \<^verbatim>\<open>AttributeError\<close>.
\<close>

fun py_get :: "json \<Rightarrow> string \<Rightarrow> json \<Rightarrow> error + json" where
  "py_get (JDict kvs) key dflt = Inr (case map_of kvs key of Some v \<Rightarrow> v | None \<Rightarrow> dflt)"
| "py_get _ key dflt = Inl AttributeError"

subsection \<open>\<^verbatim>\<open>str\<close> and \<^verbatim>\<open>repr\<close>\<close>

function str_of_nat :: "nat \<Rightarrow> string" where
  "str_of_nat n = (if n < 10 then [char_of (48 + n)] else str_of_nat (n div 10) @ [char_of (48 + n mod 10)])"
  by pat_completeness auto
termination
  by (relation "measure (\<lambda>n. n)") auto

declare str_of_nat.simps [simp del]

definition str_of_int :: "int \<Rightarrow> string" where
  "str_of_int i = (if i < 0 then CHR ''-'' # str_of_nat (nat (- i)) else str_of_nat (nat i))"

definition hex_digit :: "nat \<Rightarrow> char" where
  "hex_digit n = (if n < 10 then char_of (48 + n) else char_of (87 + n))"

text \<open>
  \<^verbatim>\<open>repr\<close> of a str: the quote is \<^verbatim>\<open>'\<close> unless the text holds a \<^verbatim>\<open>'\<close> and no \<^verbatim>\<open>"\<close>;
  the quote and the backslash are escaped, tab, newline and carriage return are written
  \<^verbatim>\<open>\t\<close>, \<^verbatim>\<open>\n\<close>, \<^verbatim>\<open>\r\<close>, and every other non-printable character as \<^verbatim>\<open>\xhh\<close>.
\<close>

definition repr_char :: "char \<Rightarrow> char \<Rightarrow> string" where
  "repr_char quote ch =
     (let n = (of_char ch :: nat) in
      if ch = quote \<or> ch = CHR 0x5C then [CHR 0x5C, ch]
      else if n = 9 then [CHR 0x5C, CHR ''t'']
      else if n = 10 then [CHR 0x5C, CHR ''n'']
      else if n = 13 then [CHR 0x5C, CHR ''r'']
      else if n < 32 \<or> n = 127 \<or> (128 \<le> n \<and> n \<le> 160) \<or> n = 173
        then [CHR 0x5C, CHR ''x'', hex_digit (n div 16), hex_digit (n mod 16)]
      else [ch])"

definition repr_str :: "string \<Rightarrow> string" where
  "repr_str s =
     (let quote = (if CHR 0x27 \<in> set s \<and> CHR 0x22 \<notin> set s then CHR 0x22 else CHR 0x27)
      in [quote] @ concat (map (repr_char quote) s) @ [quote])"

fun py_join :: "string \<Rightarrow> string list \<Rightarrow> string" where
  "py_join sep [] = []"
| "py_join sep [w] = w"
| "py_join sep (w # ws) = w @ sep @ py_join sep ws"

fun py_repr :: "json \<Rightarrow> string" where
  "py_repr JNull = ''None''"
| "py_repr (JBool b) = (if b then ''True'' else ''False'')"
| "py_repr (JInt i) = str_of_int i"
| "py_repr (JFloat r) = r"
| "py_repr (JStr s) = repr_str s"
| "py_repr (JList xs) = ''['' @ py_join '', '' (map py_repr xs) @ '']''"
| "py_repr (JDict kvs) =
     ''{'' @ py_join '', '' (map (\<lambda>(k, v). repr_str k @ '': '' @ py_repr v) kvs) @ ''}''"

text \<open>\<^verbatim>\<open>str(v)\<close> is the text itself for a str and \<^verbatim>\<open>repr(v)\<close> for every other JSON value.\<close>

fun py_str :: "json \<Rightarrow> string" where
  "py_str (JStr s) = s"
| "py_str v = py_repr v"

subsection \<open>The str methods used by the sanitizer\<close>

text \<open>
  Whitespace as \<^verbatim>\<open>str.strip()\<close> and \<^verbatim>\<open>str.split()\<close> see it (\<^verbatim>\<open>str.isspace\<close>), for code points
  below 256: U+0009 to U+000D, U+001C to U+0020, U+0085 and U+00A0.
\<close>

definition py_isspace :: "char \<Rightarrow> bool" where
  "py_isspace c =
     (let n = (of_char c :: nat) in (9 \<le> n \<and> n \<le> 13) \<or> (28 \<le> n \<and> n \<le> 32) \<or> n = 133 \<or> n = 160)"

definition py_strip :: "string \<Rightarrow> string" where
  "py_strip s = rev (dropWhile py_isspace (rev (dropWhile py_isspace s)))"

text \<open>\<^verbatim>\<open>s.replace(old, new)\<close> where \<^verbatim>\<open>old\<close> and \<^verbatim>\<open>new\<close> are single characters.\<close>

definition py_replace :: "char \<Rightarrow> char \<Rightarrow> string \<Rightarrow> string" where
  "py_replace old new s = map (\<lambda>c. if c = old then new else c) s"

text \<open>
  \<^verbatim>\<open>s.split()\<close> with no argument: the maximal runs of non-whitespace characters, in order.
  \<open>split_ws w s\<close> scans \<open>s\<close> with the word \<open>w\<close> read so far.
\<close>

fun split_ws :: "string \<Rightarrow> string \<Rightarrow> string list" where
  "split_ws w [] = (if w = [] then [] else [w])"
| "split_ws w (c # cs) =
     (if py_isspace c then (if w = [] then split_ws [] cs else w # split_ws [] cs)
      else split_ws (w @ [c]) cs)"

definition py_split :: "string \<Rightarrow> string list" where
  "py_split s = split_ws [] s"

section \<open>The value sanitizer\<close>

definition safe_value :: "json \<Rightarrow> string" where
  "safe_value val =
     (if val = JNull \<or> val = JStr [] \<or> val = JStr ''null'' then []
      else
        let val_str = py_strip (py_str val);
            val_str = py_replace (CHR 0x0D) CHR '' '' (py_replace (CHR 0x0A) CHR '' '' val_str);
            val_str = py_join '' '' (py_split val_str);
            val_str = py_replace CHR ''|'' CHR ''-'' val_str
        in val_str)"

section \<open>The flattening engine\<close>

text \<open>
  \<open>flatten_segment_to_fields\<close> returns the list \<^verbatim>\<open>fields\<close>; each loop of the source is a
  function over the remaining elements: \<open>flatten_dict_items\<close> is the loop over
  \<^verbatim>\<open>segment_data.items()\<close>, \<open>flatten_value_items\<close> the loop over a list found as a dict
  value, \<open>flatten_list_items\<close> the loop over \<^verbatim>\<open>segment_data\<close> when it is a list. The
  argument \<^verbatim>\<open>parse_dates\<close> is passed along and never read, so it is left out.
\<close>

fun flatten_segment_to_fields :: "json \<Rightarrow> string list"
  and flatten_dict_items :: "(string \<times> json) list \<Rightarrow> string list"
  and flatten_value_items :: "json list \<Rightarrow> string list"
  and flatten_list_items :: "json list \<Rightarrow> string list" where
  "flatten_segment_to_fields (JDict kvs) = flatten_dict_items kvs"
| "flatten_segment_to_fields (JList items) = flatten_list_items items"
| "flatten_segment_to_fields JNull = [safe_value JNull]"
| "flatten_segment_to_fields (JBool b) = [safe_value (JBool b)]"
| "flatten_segment_to_fields (JInt i) = [safe_value (JInt i)]"
| "flatten_segment_to_fields (JFloat r) = [safe_value (JFloat r)]"
| "flatten_segment_to_fields (JStr s) = [safe_value (JStr s)]"
| "flatten_dict_items [] = []"
| "flatten_dict_items ((key, JDict d) # rest) =
     flatten_segment_to_fields (JDict d) @ flatten_dict_items rest"
| "flatten_dict_items ((key, JList items) # rest) =
     flatten_value_items items @ flatten_dict_items rest"
| "flatten_dict_items ((key, JNull) # rest) = safe_value JNull # flatten_dict_items rest"
| "flatten_dict_items ((key, JBool b) # rest) = safe_value (JBool b) # flatten_dict_items rest"
| "flatten_dict_items ((key, JInt i) # rest) = safe_value (JInt i) # flatten_dict_items rest"
| "flatten_dict_items ((key, JFloat r) # rest) = safe_value (JFloat r) # flatten_dict_items rest"
| "flatten_dict_items ((key, JStr s) # rest) = safe_value (JStr s) # flatten_dict_items rest"
| "flatten_value_items [] = []"
| "flatten_value_items (item # rest) =
     (if is_dict item \<or> is_list item then flatten_segment_to_fields item else [safe_value item])
       @ flatten_value_items rest"
| "flatten_list_items [] = []"
| "flatten_list_items (item # rest) =
     (if is_dict item \<or> is_list item then flatten_segment_to_fields item else [safe_value item])
       @ flatten_list_items rest"

section \<open>The segment row builders\<close>

text \<open>
  A row is a Python list: its first cell is \<^verbatim>\<open>unique_id\<close> as the envelope gives it (any
  JSON value), every other cell is a str, written \<open>JStr\<close>. The loop
  \<^verbatim>\<open>while len(row) < 52: row.append('')\<close> is \<open>pad_row\<close>.
\<close>

function pad_row :: "json list \<Rightarrow> json list" where
  "pad_row row = (if length row < 52 then pad_row (row @ [JStr []]) else row)"
  by pat_completeness auto
termination
  by (relation "measure (\<lambda>row. 52 - length row)") auto

declare pad_row.simps [simp del]

text \<open>
  The seven builders of the source have the same body and differ in the segment code and
  in the default of the lookup (\<^verbatim>\<open>{}\<close> for PN, EC, TL and \<^verbatim>\<open>[]\<close> for ID, PT, PA, TH);
  \<open>generate_segment_row\<close> is that body. \<^verbatim>\<open>record.get\<close> is evaluated first, the residual
  value after the padding; either raises \<^verbatim>\<open>AttributeError\<close> on a value that is no dict.
\<close>

definition generate_segment_row :: "string \<Rightarrow> json \<Rightarrow> json \<Rightarrow> json \<Rightarrow> json \<Rightarrow> error + json list" where
  "generate_segment_row code dflt unique_id record garbage_per_segment =
     (case py_get record code dflt of
        Inl e \<Rightarrow> Inl e
      | Inr seg \<Rightarrow>
          let row = [unique_id, JStr code];
              row = (if truthy seg then row @ map JStr (flatten_segment_to_fields seg) else row);
              row = pad_row row
          in case (if truthy garbage_per_segment
                   then (case py_get garbage_per_segment code JNull of
                           Inl e \<Rightarrow> Inl e
                         | Inr g \<Rightarrow> Inr (safe_value g))
                   else Inr [])
             of Inl e \<Rightarrow> Inl e
              | Inr residual_value \<Rightarrow>
                  Inr (take 59 (row @ [JStr residual_value] @ replicate 6 (JStr []))))"

definition generate_pn_segment_row :: "json \<Rightarrow> json \<Rightarrow> json \<Rightarrow> error + json list" where
  "generate_pn_segment_row = generate_segment_row ''PN'' (JDict [])"

definition generate_id_segment_row :: "json \<Rightarrow> json \<Rightarrow> json \<Rightarrow> error + json list" where
  "generate_id_segment_row = generate_segment_row ''ID'' (JList [])"

definition generate_pt_segment_row :: "json \<Rightarrow> json \<Rightarrow> json \<Rightarrow> error + json list" where
  "generate_pt_segment_row = generate_segment_row ''PT'' (JList [])"

definition generate_ec_segment_row :: "json \<Rightarrow> json \<Rightarrow> json \<Rightarrow> error + json list" where
  "generate_ec_segment_row = generate_segment_row ''EC'' (JDict [])"

definition generate_pa_segment_row :: "json \<Rightarrow> json \<Rightarrow> json \<Rightarrow> error + json list" where
  "generate_pa_segment_row = generate_segment_row ''PA'' (JList [])"

definition generate_tl_segment_row :: "json \<Rightarrow> json \<Rightarrow> json \<Rightarrow> error + json list" where
  "generate_tl_segment_row = generate_segment_row ''TL'' (JDict [])"

definition generate_th_segment_row :: "json \<Rightarrow> json \<Rightarrow> json \<Rightarrow> error + json list" where
  "generate_th_segment_row = generate_segment_row ''TH'' (JList [])"

section \<open>The record expander\<close>

text \<open>
  The builders run in the order of the source; the first one that raises ends the call.
  \<open>append_row\<close> is one \<^verbatim>\<open>all_rows.append(...)\<close> statement.
\<close>

definition append_row :: "error + json list list \<Rightarrow> error + json list \<Rightarrow> error + json list list" where
  "append_row all_rows r =
     (case all_rows of
        Inl e \<Rightarrow> Inl e
      | Inr rows \<Rightarrow> (case r of Inl e \<Rightarrow> Inl e | Inr row \<Rightarrow> Inr (rows @ [row])))"

definition generate_all_segment_rows :: "json \<Rightarrow> json \<Rightarrow> json \<Rightarrow> error + json list list" where
  "generate_all_segment_rows unique_id record garbage_per_segment =
     (let all_rows = Inr [];
          all_rows = append_row all_rows (generate_pn_segment_row unique_id record garbage_per_segment);
          all_rows = append_row all_rows (generate_id_segment_row unique_id record garbage_per_segment);
          all_rows = append_row all_rows (generate_pt_segment_row unique_id record garbage_per_segment);
          all_rows = append_row all_rows (generate_ec_segment_row unique_id record garbage_per_segment);
          all_rows = append_row all_rows (generate_pa_segment_row unique_id record garbage_per_segment);
          all_rows = append_row all_rows (generate_tl_segment_row unique_id record garbage_per_segment);
          all_rows = append_row all_rows (generate_th_segment_row unique_id record garbage_per_segment)
      in all_rows)"

section \<open>The CSV emission pipeline\<close>

text \<open>
  The input is the loaded document \<^verbatim>\<open>data\<close>; the output file is the list of the rows
  handed to the CSV writer, the header first (quoting is the writer's business). The
  state of the run is the four variables of the source that the loop updates.
\<close>

record csv_state =
  rows_written :: nat
  problematic_rows :: nat
  all_rows_batch :: "string list list"
  csvfile :: "string list list"

definition header :: "string list" where
  "header = [''Unique_ID'', ''Segment_Name'']
     @ map (\<lambda>i. ''Field'' @ str_of_nat i) [1..<51]
     @ [''Residual_Value'', ''System'', ''Processing_Stage'', ''Processing_Status'',
        ''Bot_Status'', ''Failure_Reason'', ''Forced_Status'']"

text \<open>
  The loop \<^verbatim>\<open>for cell in row\<close>, on the pair of \<^verbatim>\<open>cleaned_row\<close> and \<^verbatim>\<open>problematic_rows\<close>.
\<close>

fun clean_cells :: "json list \<Rightarrow> string list \<times> nat \<Rightarrow> string list \<times> nat" where
  "clean_cells [] acc = acc"
| "clean_cells (cell # rest) (cleaned_row, problematic) =
     (if cell = JStr [] then clean_cells rest (cleaned_row @ [[]], problematic)
      else
        let cell_str = py_strip (py_str cell)
        in if length cell_str > 8000
           then clean_cells rest (cleaned_row @ [take 8000 cell_str], problematic + 1)
           else clean_cells rest (cleaned_row @ [cell_str], problematic))"

text \<open>
  The loop \<^verbatim>\<open>for row in segment_rows\<close>. The body of its \<^verbatim>\<open>try\<close> compares a cell with
  \<^verbatim>\<open>''\<close>, applies \<^verbatim>\<open>str\<close>, \<^verbatim>\<open>strip\<close>, \<^verbatim>\<open>len\<close> and a slice, and appends to lists; none of these
  raises on a JSON value or a str, so the body is a total function and the \<^verbatim>\<open>except\<close>
  handler has no branch here.
\<close>

fun clean_rows :: "json list list \<Rightarrow> csv_state \<Rightarrow> csv_state" where
  "clean_rows [] st = st"
| "clean_rows (row # rest) st =
     (case clean_cells row ([], problematic_rows st) of
        (cleaned_row, problematic) \<Rightarrow>
          clean_rows rest
            (st\<lparr>all_rows_batch := all_rows_batch st @ [cleaned_row],
                problematic_rows := problematic\<rparr>))"

text \<open>One pass of the loop \<^verbatim>\<open>for idx, record_obj in enumerate(records)\<close>.\<close>

definition flush_batch :: "nat \<Rightarrow> csv_state \<Rightarrow> csv_state" where
  "flush_batch idx st =
     (if (idx + 1) mod 1000 = 0
      then st\<lparr>csvfile := csvfile st @ all_rows_batch st,
              rows_written := rows_written st + length (all_rows_batch st),
              all_rows_batch := []\<rparr>
      else st)"

definition process_record :: "nat \<Rightarrow> json \<Rightarrow> csv_state \<Rightarrow> error + csv_state" where
  "process_record idx record_obj st =
     (case py_get record_obj ''unique_id'' JNull of
        Inl e \<Rightarrow> Inl e
      | Inr unique_id \<Rightarrow>
     (case py_get record_obj ''record'' (JDict []) of
        Inl e \<Rightarrow> Inl e
      | Inr record \<Rightarrow>
     (case py_get record_obj ''garbage_per_segment'' (JDict []) of
        Inl e \<Rightarrow> Inl e
      | Inr garbage_per_segment \<Rightarrow>
     (case generate_all_segment_rows unique_id record garbage_per_segment of
        Inl e \<Rightarrow> Inl e
      | Inr segment_rows \<Rightarrow> Inr (flush_batch idx (clean_rows segment_rows st))))))"

fun process_records :: "nat \<Rightarrow> json list \<Rightarrow> csv_state \<Rightarrow> error + csv_state" where
  "process_records idx [] st = Inr st"
| "process_records idx (record_obj # rest) st =
     (case process_record idx record_obj st of
        Inl e \<Rightarrow> Inl e
      | Inr st' \<Rightarrow> process_records (idx + 1) rest st')"

text \<open>
  What \<^verbatim>\<open>len(records)\<close> and \<^verbatim>\<open>enumerate(records)\<close> accept: a list gives its elements, a
  dict its keys, a str its characters; \<^verbatim>\<open>len\<close> of any other JSON value raises
  \<^verbatim>\<open>TypeError\<close>.
\<close>

fun py_iter :: "json \<Rightarrow> error + json list" where
  "py_iter (JList xs) = Inr xs"
| "py_iter (JDict kvs) = Inr (map (\<lambda>(k, v). JStr k) kvs)"
| "py_iter (JStr s) = Inr (map (\<lambda>c. JStr [c]) s)"
| "py_iter _ = Inl TypeError"

text \<open>
  \<open>run_csv\<close> is the body of \<open>generate_csv_from_json\<close> up to the end of the \<^verbatim>\<open>with\<close> block and
  gives the final state; \<open>generate_csv_from_json\<close> is the function with its
  \<^verbatim>\<open>return rows_written\<close>.
\<close>

definition final_flush :: "csv_state \<Rightarrow> csv_state" where
  "final_flush st =
     (if all_rows_batch st \<noteq> []
      then st\<lparr>csvfile := csvfile st @ all_rows_batch st,
              rows_written := rows_written st + length (all_rows_batch st)\<rparr>
      else st)"

definition run_csv :: "json \<Rightarrow> error + csv_state" where
  "run_csv data =
     (case py_get data ''Records'' (JList []) of
        Inl e \<Rightarrow> Inl e
      | Inr records \<Rightarrow>
     (case py_iter records of
        Inl e \<Rightarrow> Inl e
      | Inr record_objs \<Rightarrow>
     (case process_records 0 record_objs
             \<lparr>rows_written = 0, problematic_rows = 0, all_rows_batch = [], csvfile = [header]\<rparr> of
        Inl e \<Rightarrow> Inl e
      | Inr st \<Rightarrow> Inr (final_flush st))))"

definition generate_csv_from_json :: "json \<Rightarrow> error + nat" where
  "generate_csv_from_json data =
     (case run_csv data of Inl e \<Rightarrow> Inl e | Inr st \<Rightarrow> Inr (rows_written st))"

section \<open>Specification-side definitions\<close>

text \<open>
  The definitions of this section are not code of the program: they state what the
  theorems below say about it.
\<close>

text \<open>
  The flattening order in the words of the specification: depth first, in pre-order, the
  entries of a mapping and the elements of a sequence in their own order, a scalar
  (\<^verbatim>\<open>None\<close> included) as one leaf.
\<close>

fun depth_first_leaves :: "json \<Rightarrow> json list"
  and entry_leaves :: "(string \<times> json) list \<Rightarrow> json list"
  and element_leaves :: "json list \<Rightarrow> json list" where
  "depth_first_leaves (JDict kvs) = entry_leaves kvs"
| "depth_first_leaves (JList xs) = element_leaves xs"
| "depth_first_leaves JNull = [JNull]"
| "depth_first_leaves (JBool b) = [JBool b]"
| "depth_first_leaves (JInt i) = [JInt i]"
| "depth_first_leaves (JFloat r) = [JFloat r]"
| "depth_first_leaves (JStr s) = [JStr s]"
| "entry_leaves [] = []"
| "entry_leaves ((k, v) # rest) = depth_first_leaves v @ entry_leaves rest"
| "element_leaves [] = []"
| "element_leaves (x # rest) = depth_first_leaves x @ element_leaves rest"

text \<open>
  A sanitized string: no \<^verbatim>\<open>|\<close>, no whitespace character other than the plain space
  (so no newline, carriage return or tab), no space at either end, and no two spaces in
  a row.
\<close>

fun single_spaced :: "string \<Rightarrow> bool" where
  "single_spaced (a # b # cs) = (\<not> (a = CHR '' '' \<and> b = CHR '' '') \<and> single_spaced (b # cs))"
| "single_spaced _ = True"

definition sanitized :: "string \<Rightarrow> bool" where
  "sanitized s =
     ((\<forall>c \<in> set s. c \<noteq> CHR ''|'' \<and> (py_isspace c \<longrightarrow> c = CHR '' ''))
      \<and> (s \<noteq> [] \<longrightarrow> hd s \<noteq> CHR '' '' \<and> last s \<noteq> CHR '' '')
      \<and> single_spaced s)"

definition word_ok :: "string \<Rightarrow> bool" where
  "word_ok w = (w \<noteq> [] \<and> (\<forall>c \<in> set w. \<not> py_isspace c))"

definition spaced_ok :: "string \<Rightarrow> bool" where
  "spaced_ok s =
     ((\<forall>c \<in> set s. py_isspace c \<longrightarrow> c = CHR '' '')
      \<and> (s \<noteq> [] \<longrightarrow> hd s \<noteq> CHR '' '' \<and> last s \<noteq> CHR '' '')
      \<and> single_spaced s)"

text \<open>The flattened fields a segment value contributes to its row.\<close>

definition segment_fields :: "json \<Rightarrow> json list" where
  "segment_fields seg = (if truthy seg then map JStr (flatten_segment_to_fields seg) else [])"

definition segment_codes :: "string list" where
  "segment_codes = [''PN'', ''ID'', ''PT'', ''EC'', ''PA'', ''TL'', ''TH'']"

text \<open>
  The cleaning pass cell by cell: what a cell becomes, and whether it is counted as an
  issue.
\<close>

definition clean_cell :: "json \<Rightarrow> string" where
  "clean_cell cell = (if cell = JStr [] then [] else take 8000 (py_strip (py_str cell)))"

definition too_long :: "json \<Rightarrow> bool" where
  "too_long cell = (cell \<noteq> JStr [] \<and> length (py_strip (py_str cell)) > 8000)"

definition issue_count :: "json list list \<Rightarrow> nat" where
  "issue_count rows = length (filter too_long (concat rows))"

text \<open>
  The rows of one envelope and of a list of envelopes, before cleaning; the first envelope
  that raises decides the result.
\<close>

definition envelope_rows :: "json \<Rightarrow> error + json list list" where
  "envelope_rows record_obj =
     (case py_get record_obj ''unique_id'' JNull of
        Inl e \<Rightarrow> Inl e
      | Inr unique_id \<Rightarrow>
     (case py_get record_obj ''record'' (JDict []) of
        Inl e \<Rightarrow> Inl e
      | Inr record \<Rightarrow>
     (case py_get record_obj ''garbage_per_segment'' (JDict []) of
        Inl e \<Rightarrow> Inl e
      | Inr garbage_per_segment \<Rightarrow> generate_all_segment_rows unique_id record garbage_per_segment)))"

fun all_envelope_rows :: "json list \<Rightarrow> error + json list list" where
  "all_envelope_rows [] = Inr []"
| "all_envelope_rows (record_obj # rest) =
     (case envelope_rows record_obj of
        Inl e \<Rightarrow> Inl e
      | Inr rows \<Rightarrow>
          (case all_envelope_rows rest of Inl e \<Rightarrow> Inl e | Inr others \<Rightarrow> Inr (rows @ others)))"

definition loaded_records :: "json \<Rightarrow> error + json list" where
  "loaded_records data =
     (case py_get data ''Records'' (JList []) of Inl e \<Rightarrow> Inl e | Inr records \<Rightarrow> py_iter records)"

text \<open>
  What the file holds once the batch is flushed, and the invariant that ties
  \<^verbatim>\<open>rows_written\<close> to the file (the header is not counted).
\<close>

definition pending :: "csv_state \<Rightarrow> string list list" where
  "pending st = csvfile st @ all_rows_batch st"

definition counted :: "csv_state \<Rightarrow> bool" where
  "counted st = (length (csvfile st) = Suc (rows_written st))"


section \<open>Properties of the sanitizer\<close>

text \<open>
  Claim C8. The sanitizer maps \<^verbatim>\<open>None\<close>, the empty string and the literal string
  \<^verbatim>\<open>"null"\<close> to the empty string.
\<close>

theorem safe_value_null_like:
  "safe_value JNull = [] \<and> safe_value (JStr []) = [] \<and> safe_value (JStr ''null'') = []"
  by (simp add: safe_value_def)

lemma space_facts: "\<not> py_isspace CHR ''|''" "\<not> py_isspace CHR ''-''" "py_isspace CHR '' ''"
  by (simp_all add: py_isspace_def)

lemma split_ws_words:
  "\<forall>c \<in> set w. \<not> py_isspace c \<Longrightarrow> \<forall>x \<in> set (split_ws w s). word_ok x"
proof (induction s arbitrary: w)
  case Nil
  then show ?case by (simp add: word_ok_def)
next
  case (Cons c cs)
  show ?case
  proof (cases "py_isspace c")
    case True
    have "\<forall>x \<in> set (split_ws [] cs). word_ok x" by (rule Cons.IH) simp
    with True Cons.prems show ?thesis by (simp add: word_ok_def)
  next
    case False
    have "\<forall>x \<in> set (split_ws (w @ [c]) cs). word_ok x"
      by (rule Cons.IH) (use False Cons.prems in auto)
    with False show ?thesis by simp
  qed
qed

lemma py_split_words: "\<forall>x \<in> set (py_split s). word_ok x"
  unfolding py_split_def by (rule split_ws_words) simp

lemma single_spaced_Cons:
  "single_spaced (a # s) = ((s = [] \<or> a \<noteq> CHR '' '' \<or> hd s \<noteq> CHR '' '') \<and> single_spaced s)"
  by (cases s) auto

lemma single_spaced_append_word:
  "single_spaced t \<Longrightarrow> t \<noteq> [] \<Longrightarrow> hd t \<noteq> CHR '' '' \<Longrightarrow> \<forall>c \<in> set w. c \<noteq> CHR '' ''
     \<Longrightarrow> single_spaced (w @ CHR '' '' # t)"
  by (induction w) (simp_all add: single_spaced_Cons)

lemma single_spaced_word: "\<forall>c \<in> set w. c \<noteq> CHR '' '' \<Longrightarrow> single_spaced w"
  by (induction w) (simp_all add: single_spaced_Cons)

lemma word_no_blank: "word_ok w \<Longrightarrow> \<forall>c \<in> set w. c \<noteq> CHR '' ''"
  using space_facts(3) by (auto simp: word_ok_def)

lemma join_words_nonempty: "ws \<noteq> [] \<Longrightarrow> \<forall>x \<in> set ws. word_ok x \<Longrightarrow> py_join '' '' ws \<noteq> []"
  by (induction "'' ''" ws rule: py_join.induct) (simp_all add: word_ok_def)

lemma join_words_spaced: "\<forall>x \<in> set ws. word_ok x \<Longrightarrow> spaced_ok (py_join '' '' ws)"
proof (induction "'' ''" ws rule: py_join.induct)
  case 1
  then show ?case by (simp add: spaced_ok_def)
next
  case (2 w)
  then have w: "word_ok w" by simp
  then have "\<forall>c \<in> set w. c \<noteq> CHR '' ''" by (rule word_no_blank)
  with w show ?case
    by (auto simp: spaced_ok_def word_ok_def single_spaced_word)
next
  case (3 w v va)
  let ?t = "py_join '' '' (v # va)"
  from 3 have w: "word_ok w" and rest: "\<forall>x \<in> set (v # va). word_ok x" by simp_all
  from 3 rest have t: "spaced_ok ?t" by simp
  have tne: "?t \<noteq> []" by (rule join_words_nonempty) (use rest in simp_all)
  have wb: "\<forall>c \<in> set w. c \<noteq> CHR '' ''" using w by (rule word_no_blank)
  have wne: "w \<noteq> []" using w by (simp add: word_ok_def)
  have ss: "single_spaced (w @ CHR '' '' # ?t)"
    by (rule single_spaced_append_word) (use t tne wb in \<open>simp_all add: spaced_ok_def\<close>)
  have hd_ok: "hd (w @ CHR '' '' # ?t) \<noteq> CHR '' ''" using wne wb by (cases w) simp_all
  have last_ok: "last (w @ CHR '' '' # ?t) \<noteq> CHR '' ''" using t tne by (simp add: spaced_ok_def)
  have chars: "\<forall>c \<in> set (w @ CHR '' '' # ?t). py_isspace c \<longrightarrow> c = CHR '' ''"
    using w t by (auto simp: word_ok_def spaced_ok_def)
  have "py_join '' '' (w # v # va) = w @ CHR '' '' # ?t" by simp
  with ss hd_ok last_ok chars show ?case by (simp add: spaced_ok_def)
qed

lemma single_spaced_replace:
  "old \<noteq> CHR '' '' \<Longrightarrow> new \<noteq> CHR '' '' \<Longrightarrow> single_spaced s \<Longrightarrow> single_spaced (py_replace old new s)"
  by (induction s rule: single_spaced.induct) (auto simp: py_replace_def)

lemma spaced_replace_bar:
  assumes s: "spaced_ok s"
  shows "sanitized (py_replace CHR ''|'' CHR ''-'' s)"
proof -
  let ?r = "py_replace CHR ''|'' CHR ''-'' s"
  have chars: "\<forall>c \<in> set ?r. c \<noteq> CHR ''|'' \<and> (py_isspace c \<longrightarrow> c = CHR '' '')"
    using s space_facts by (auto simp: py_replace_def spaced_ok_def)
  have ss: "single_spaced ?r" using s by (simp add: single_spaced_replace spaced_ok_def)
  have ends: "?r \<noteq> [] \<longrightarrow> hd ?r \<noteq> CHR '' '' \<and> last ?r \<noteq> CHR '' ''"
    using s by (auto simp: py_replace_def spaced_ok_def hd_map last_map)
  from chars ss ends show ?thesis by (simp add: sanitized_def)
qed

lemma sanitized_Nil: "sanitized []"
  by (simp add: sanitized_def)

lemma sanitized_safe_value: "sanitized (safe_value v)"
  by (simp add: safe_value_def Let_def sanitized_Nil spaced_replace_bar join_words_spaced py_split_words)

section \<open>Properties of the flattening engine\<close>

lemma depth_first_leaves_scalar: "\<not> is_dict v \<Longrightarrow> \<not> is_list v \<Longrightarrow> depth_first_leaves v = [v]"
  by (cases v) simp_all

lemma flatten_leaves:
  "flatten_segment_to_fields v = map safe_value (depth_first_leaves v)"
  "flatten_dict_items kvs = map safe_value (entry_leaves kvs)"
  "flatten_value_items xs = map safe_value (element_leaves xs)"
  "flatten_list_items xs = map safe_value (element_leaves xs)"
proof (induction v and kvs and xs and xs
    rule: flatten_segment_to_fields_flatten_dict_items_flatten_value_items_flatten_list_items.induct)
qed (simp_all add: depth_first_leaves_scalar)

text \<open>
  Claim C7. The flattening engine is a deterministic depth-first pre-order traversal in
  the key and element order of its input: its result is the sanitized leaves of the
  value in that order; \<^verbatim>\<open>{"a": 1, "b": {"c": 2, "d": 3}}\<close> gives \<^verbatim>\<open>["1", "2", "3"]\<close> and
  \<^verbatim>\<open>[1, [2, 3], 4]\<close> gives \<^verbatim>\<open>["1", "2", "3", "4"]\<close>.
\<close>

theorem flatten_depth_first_in_order:
  "flatten_segment_to_fields v = map safe_value (depth_first_leaves v)
   \<and> flatten_segment_to_fields
        (JDict [(''a'', JInt 1), (''b'', JDict [(''c'', JInt 2), (''d'', JInt 3)])])
       = [''1'', ''2'', ''3'']
   \<and> flatten_segment_to_fields (JList [JInt 1, JList [JInt 2, JInt 3], JInt 4])
       = [''1'', ''2'', ''3'', ''4'']"
proof -
  have "flatten_segment_to_fields
        (JDict [(''a'', JInt 1), (''b'', JDict [(''c'', JInt 2), (''d'', JInt 3)])])
       = [''1'', ''2'', ''3'']"
    by code_simp
  moreover have "flatten_segment_to_fields (JList [JInt 1, JList [JInt 2, JInt 3], JInt 4])
       = [''1'', ''2'', ''3'', ''4'']"
    by code_simp
  ultimately show ?thesis by (simp only: flatten_leaves(1) simp_thms)
qed

text \<open>
  Claim C10. For every input value the sanitizer returns a string with no \<^verbatim>\<open>|\<close>, no
  newline, carriage return or other whitespace than single spaces, and no space at
  either end; every field that the flattening engine appends has the same property.
\<close>

theorem safe_value_and_fields_sanitized:
  "sanitized (safe_value v) \<and> (\<forall>f \<in> set (flatten_segment_to_fields v). sanitized f)"
  by (auto simp: flatten_leaves sanitized_safe_value)

theorem safe_value_and_fields_sanitized_witness:
  "safe_value (JStr ''  Jo|hn   Doe '') = ''Jo-hn Doe''
   \<and> sanitized ''Jo-hn Doe''
   \<and> flatten_segment_to_fields (JList [JStr ''  Jo|hn   Doe '']) = [''Jo-hn Doe'']"
proof -
  have v: "safe_value (JStr ''  Jo|hn   Doe '') = ''Jo-hn Doe''" by code_simp
  have f: "flatten_segment_to_fields (JList [JStr ''  Jo|hn   Doe '']) = [''Jo-hn Doe'']" by code_simp
  from safe_value_and_fields_sanitized [of "JStr ''  Jo|hn   Doe ''"] v
  have "sanitized ''Jo-hn Doe''" by simp
  with v f show ?thesis by simp
qed

section \<open>Properties of the segment row builders\<close>

lemma pad_row_eq: "pad_row row = row @ replicate (52 - length row) (JStr [])"
proof (induction row rule: pad_row.induct)
  case (1 row)
  show ?case
  proof (cases "length row < 52")
    case True
    then have "52 - length row = Suc (52 - length (row @ [JStr []]))" by simp
    then have "replicate (52 - length row) (JStr [])
        = JStr [] # replicate (52 - length (row @ [JStr []])) (JStr [])"
      by (simp only: replicate_Suc)
    with True 1 show ?thesis by (subst pad_row.simps) simp
  next
    case False
    then show ?thesis by (subst pad_row.simps) simp
  qed
qed

lemma length_pad_row: "length (pad_row row) = max 52 (length row)"
  by (simp add: pad_row_eq)

text \<open>
  What a builder returns: it raises exactly when \<^verbatim>\<open>record\<close> is no dict or
  \<^verbatim>\<open>garbage_per_segment\<close> is truthy and no dict; otherwise the row is the first 59 cells of
  the padded identity and field cells, the residual value and six empty cells.
\<close>

lemma generate_segment_row_cases:
  "generate_segment_row code dflt unique_id record garbage =
     (if \<not> is_dict record \<or> (truthy garbage \<and> \<not> is_dict garbage) then Inl AttributeError
      else Inr (take 59
        (pad_row (unique_id # JStr code
            # segment_fields (case py_get record code dflt of Inr seg \<Rightarrow> seg | Inl e \<Rightarrow> JNull))
         @ JStr (if truthy garbage
                 then safe_value (case py_get garbage code JNull of Inr g \<Rightarrow> g | Inl e \<Rightarrow> JNull)
                 else [])
         # replicate 6 (JStr []))))"
  by (cases "record"; cases garbage)
    (simp_all add: generate_segment_row_def segment_fields_def Let_def)

lemma generate_segment_row_first:
  "generate_segment_row code dflt unique_id record garbage = Inr row
     \<Longrightarrow> row \<noteq> [] \<and> row ! 0 = unique_id \<and> row ! 1 = JStr code"
  by (auto simp: generate_segment_row_cases pad_row_eq nth_append split: if_splits)

lemmas builder_defs = generate_pn_segment_row_def generate_id_segment_row_def
  generate_pt_segment_row_def generate_ec_segment_row_def generate_pa_segment_row_def
  generate_tl_segment_row_def generate_th_segment_row_def

lemma empty_cells:
  "replicate 50 (JStr []) @ JStr [] # replicate 6 (JStr []) = replicate 57 (JStr [])"
proof -
  have "replicate (50 + (Suc 0 + 6)) (JStr [])
      = replicate 50 (JStr []) @ JStr [] # replicate 6 (JStr [])"
    by (simp only: replicate_add replicate_Suc replicate_0 append_Cons append_Nil)
  moreover have "50 + (Suc 0 + 6) = (57::nat)" by simp
  ultimately show ?thesis by simp
qed

lemma empty_segment_row:
  "\<not> truthy dflt \<Longrightarrow>
   generate_segment_row code dflt unique_id (JDict []) (JDict [])
     = Inr (unique_id # JStr code # replicate 57 (JStr []))"
  by (simp add: generate_segment_row_def pad_row_eq empty_cells)

text \<open>
  When the segment value flattens to 57 fields or more, the row is the two identity cells
  and the first 57 fields: the residual value and the six empty cells are appended after
  them and cut off by \<^verbatim>\<open>row[:59]\<close>.
\<close>

lemma segment_row_overflow:
  assumes "py_get record code dflt = Inr seg" and "truthy seg"
    and "57 \<le> length (flatten_segment_to_fields seg)"
    and "\<not> truthy garbage \<or> is_dict garbage"
  shows "generate_segment_row code dflt unique_id record garbage
     = Inr (unique_id # JStr code # map JStr (take 57 (flatten_segment_to_fields seg)))"
proof -
  from assms(1) have "is_dict record" by (cases "record") simp_all
  with assms show ?thesis
    by (auto simp: generate_segment_row_cases segment_fields_def pad_row_eq take_map)
qed

text \<open>
  Claim C1. The claim says that a segment value with 60 flattened fields gives a row whose
  first 50 fields fill Field1 to Field50, the rest dropped, with the sanitized residual
  value and the six reserved empty cells in their places. The code does not cut the row
  to 52 cells before it appends the residual value: for the PN value
  \<^verbatim>\<open>[1, 2, ..., 60]\<close> and the residual value \<^verbatim>\<open>"g"\<close> the row is \<^verbatim>\<open>U1\<close>, \<^verbatim>\<open>PN\<close> and the
  fields \<^verbatim>\<open>"1"\<close> to \<^verbatim>\<open>"57"\<close>, so the \<^verbatim>\<open>Residual_Value\<close> cell holds field 51, the six reserved
  cells hold fields 52 to 57, and \<^verbatim>\<open>"g"\<close> is lost. The row still has 59 cells.
\<close>

theorem pn_row_overflow_shifts_fields:
  "generate_pn_segment_row (JStr ''U1'') (JDict [(''PN'', JList (map JInt [1..60]))])
       (JDict [(''PN'', JStr ''g'')])
     = Inr (JStr ''U1'' # JStr ''PN'' # map JStr (map str_of_int [1..57]))"
  by code_simp

text \<open>
  Claim C4. Whatever the shape of \<^verbatim>\<open>unique_id\<close>, \<^verbatim>\<open>record\<close>, its segment values and
  \<^verbatim>\<open>garbage_per_segment\<close>, every row that one of the seven builders produces has exactly
  59 cells; a builder produces no row only where \<^verbatim>\<open>.get\<close> raises, that is when \<^verbatim>\<open>record\<close> is
  no dict or \<^verbatim>\<open>garbage_per_segment\<close> is truthy and no dict.
\<close>

theorem segment_row_has_59_cells:
  assumes "build \<in> {generate_pn_segment_row, generate_id_segment_row, generate_pt_segment_row,
      generate_ec_segment_row, generate_pa_segment_row, generate_tl_segment_row,
      generate_th_segment_row}"
  shows "case build unique_id record garbage_per_segment of
           Inl e \<Rightarrow> \<not> is_dict record \<or> (truthy garbage_per_segment \<and> \<not> is_dict garbage_per_segment)
         | Inr row \<Rightarrow> length row = 59"
  using assms
  by (auto simp: builder_defs generate_segment_row_cases length_pad_row)

theorem segment_row_has_59_cells_witness:
  "generate_th_segment_row (JStr ''U1'') (JDict []) (JDict [])
     = Inr (JStr ''U1'' # JStr ''TH'' # replicate 57 (JStr []))
   \<and> length (JStr ''U1'' # JStr ''TH'' # replicate 57 (JStr [])) = 59"
proof -
  have row: "generate_th_segment_row (JStr ''U1'') (JDict []) (JDict [])
     = Inr (JStr ''U1'' # JStr ''TH'' # replicate 57 (JStr []))"
    by (simp add: generate_th_segment_row_def empty_segment_row)
  from segment_row_has_59_cells [of generate_th_segment_row "JStr ''U1''" "JDict []" "JDict []"]
  have "length (JStr ''U1'' # JStr ''TH'' # replicate 57 (JStr [])) = 59"
    unfolding row by simp
  with row show ?thesis by simp
qed

section \<open>Properties of the record expander\<close>

lemma append_row_Inr:
  "append_row all_rows r = Inr rows'
     \<longleftrightarrow> (\<exists>rows row. all_rows = Inr rows \<and> r = Inr row \<and> rows' = rows @ [row])"
  by (auto simp: append_row_def split: sum.splits)

lemma generate_all_rows_from:
  assumes "generate_all_segment_rows unique_id record garbage = Inr rows"
  shows "\<exists>r1 r2 r3 r4 r5 r6 r7. rows = [r1, r2, r3, r4, r5, r6, r7]
     \<and> generate_pn_segment_row unique_id record garbage = Inr r1
     \<and> generate_id_segment_row unique_id record garbage = Inr r2
     \<and> generate_pt_segment_row unique_id record garbage = Inr r3
     \<and> generate_ec_segment_row unique_id record garbage = Inr r4
     \<and> generate_pa_segment_row unique_id record garbage = Inr r5
     \<and> generate_tl_segment_row unique_id record garbage = Inr r6
     \<and> generate_th_segment_row unique_id record garbage = Inr r7"
  using assms unfolding generate_all_segment_rows_def Let_def append_row_Inr
  by auto

lemma generate_all_rows_returns:
  "is_dict record \<Longrightarrow> truthy garbage \<longrightarrow> is_dict garbage
     \<Longrightarrow> \<exists>rows. generate_all_segment_rows unique_id record garbage = Inr rows"
  by (simp add: generate_all_segment_rows_def append_row_def builder_defs generate_segment_row_cases)


lemma generate_all_rows_first:
  assumes "generate_all_segment_rows unique_id record garbage = Inr rows"
  shows "length rows = 7 \<and> (\<forall>row \<in> set rows. row \<noteq> [] \<and> row ! 0 = unique_id)"
proof -
  from generate_all_rows_from [OF assms] obtain r1 r2 r3 r4 r5 r6 r7 where
    rows: "rows = [r1, r2, r3, r4, r5, r6, r7]"
    and r: "generate_pn_segment_row unique_id record garbage = Inr r1"
      "generate_id_segment_row unique_id record garbage = Inr r2"
      "generate_pt_segment_row unique_id record garbage = Inr r3"
      "generate_ec_segment_row unique_id record garbage = Inr r4"
      "generate_pa_segment_row unique_id record garbage = Inr r5"
      "generate_tl_segment_row unique_id record garbage = Inr r6"
      "generate_th_segment_row unique_id record garbage = Inr r7"
    by blast
  from r have "\<forall>row \<in> {r1, r2, r3, r4, r5, r6, r7}. row \<noteq> [] \<and> row ! 0 = unique_id"
    unfolding builder_defs by (blast dest: generate_segment_row_first)
  with rows show ?thesis by simp
qed

lemma generate_segment_row_code:
  "generate_segment_row code dflt unique_id record garbage = Inr row \<Longrightarrow> row ! 1 = JStr code"
  by (drule generate_segment_row_first) (elim conjE)

text \<open>
  Claim C5. For every envelope the record expander produces exactly 7 segment rows, one
  per segment code, in the fixed order PN, ID, PT, EC, PA, TL, TH: whenever it returns,
  its result is the list of the seven builders' rows in that order, each carrying its
  segment code in the second cell; and it returns for every \<^verbatim>\<open>record\<close> that is a dict
  and every \<^verbatim>\<open>garbage_per_segment\<close> that is falsy or a dict.
\<close>

theorem all_segment_rows_in_fixed_order:
  "(is_dict record \<and> (truthy garbage \<longrightarrow> is_dict garbage)
      \<longrightarrow> (\<exists>rows. generate_all_segment_rows unique_id record garbage = Inr rows))
   \<and> (generate_all_segment_rows unique_id record garbage = Inr rows
      \<longrightarrow> length rows = 7
        \<and> map (\<lambda>row. row ! 1) rows
            = [JStr ''PN'', JStr ''ID'', JStr ''PT'', JStr ''EC'', JStr ''PA'', JStr ''TL'', JStr ''TH'']
        \<and> map Inr rows = [generate_pn_segment_row unique_id record garbage,
             generate_id_segment_row unique_id record garbage,
             generate_pt_segment_row unique_id record garbage,
             generate_ec_segment_row unique_id record garbage,
             generate_pa_segment_row unique_id record garbage,
             generate_tl_segment_row unique_id record garbage,
             generate_th_segment_row unique_id record garbage])"
proof (intro conjI impI)
  assume "is_dict record \<and> (truthy garbage \<longrightarrow> is_dict garbage)"
  then show "\<exists>rows. generate_all_segment_rows unique_id record garbage = Inr rows"
    by (simp add: generate_all_rows_returns)
next
  assume a: "generate_all_segment_rows unique_id record garbage = Inr rows"
  from generate_all_rows_from [OF a] obtain r1 r2 r3 r4 r5 r6 r7 where
    rows: "rows = [r1, r2, r3, r4, r5, r6, r7]"
    and r: "generate_pn_segment_row unique_id record garbage = Inr r1"
      "generate_id_segment_row unique_id record garbage = Inr r2"
      "generate_pt_segment_row unique_id record garbage = Inr r3"
      "generate_ec_segment_row unique_id record garbage = Inr r4"
      "generate_pa_segment_row unique_id record garbage = Inr r5"
      "generate_tl_segment_row unique_id record garbage = Inr r6"
      "generate_th_segment_row unique_id record garbage = Inr r7"
    by blast
  show "length rows = 7" using rows by simp
  have "r1 ! 1 = JStr ''PN''" using r(1) unfolding builder_defs by (rule generate_segment_row_code)
  moreover have "r2 ! 1 = JStr ''ID''" using r(2) unfolding builder_defs by (rule generate_segment_row_code)
  moreover have "r3 ! 1 = JStr ''PT''" using r(3) unfolding builder_defs by (rule generate_segment_row_code)
  moreover have "r4 ! 1 = JStr ''EC''" using r(4) unfolding builder_defs by (rule generate_segment_row_code)
  moreover have "r5 ! 1 = JStr ''PA''" using r(5) unfolding builder_defs by (rule generate_segment_row_code)
  moreover have "r6 ! 1 = JStr ''TL''" using r(6) unfolding builder_defs by (rule generate_segment_row_code)
  moreover have "r7 ! 1 = JStr ''TH''" using r(7) unfolding builder_defs by (rule generate_segment_row_code)
  ultimately show "map (\<lambda>row. row ! 1) rows
      = [JStr ''PN'', JStr ''ID'', JStr ''PT'', JStr ''EC'', JStr ''PA'', JStr ''TL'', JStr ''TH'']"
    using rows by simp
  show "map Inr rows = [generate_pn_segment_row unique_id record garbage,
             generate_id_segment_row unique_id record garbage,
             generate_pt_segment_row unique_id record garbage,
             generate_ec_segment_row unique_id record garbage,
             generate_pa_segment_row unique_id record garbage,
             generate_tl_segment_row unique_id record garbage,
             generate_th_segment_row unique_id record garbage]"
    using rows r by simp
qed

theorem all_segment_rows_in_fixed_order_witness:
  "\<exists>rows. generate_all_segment_rows (JStr ''U1'') (JDict []) (JDict []) = Inr rows
     \<and> length rows = 7
     \<and> map (\<lambda>row. row ! 1) rows
         = [JStr ''PN'', JStr ''ID'', JStr ''PT'', JStr ''EC'', JStr ''PA'', JStr ''TL'', JStr ''TH'']"
proof -
  have shape: "is_dict (JDict []) \<and> (truthy (JDict []) \<longrightarrow> is_dict (JDict []))" by simp
  from all_segment_rows_in_fixed_order [of "JDict []" "JDict []" "JStr ''U1''", THEN conjunct1] shape
  obtain rows where rows: "generate_all_segment_rows (JStr ''U1'') (JDict []) (JDict []) = Inr rows"
    by (elim impE exE) simp_all
  from all_segment_rows_in_fixed_order [of "JDict []" "JDict []" "JStr ''U1''" rows, THEN conjunct2] rows
  have "length rows = 7
     \<and> map (\<lambda>row. row ! 1) rows
         = [JStr ''PN'', JStr ''ID'', JStr ''PT'', JStr ''EC'', JStr ''PA'', JStr ''TL'', JStr ''TH'']"
    by simp
  with rows show ?thesis by (intro exI [of _ rows]) simp
qed

section \<open>Properties of the emission pipeline\<close>

lemma clean_cells_eq:
  "clean_cells row (cleaned, p) = (cleaned @ map clean_cell row, p + length (filter too_long row))"
  by (induction row arbitrary: cleaned p) (simp_all add: clean_cell_def too_long_def Let_def)

lemma clean_rows_eq:
  "clean_rows rows st =
     st\<lparr>all_rows_batch := all_rows_batch st @ map (map clean_cell) rows,
        problematic_rows := problematic_rows st + issue_count rows\<rparr>"
  by (induction rows arbitrary: st) (simp_all add: clean_cells_eq issue_count_def)

lemma process_record_eq:
  "process_record idx record_obj st =
     (case envelope_rows record_obj of
        Inl e \<Rightarrow> Inl e
      | Inr rows \<Rightarrow> Inr (flush_batch idx (clean_rows rows st)))"
  by (simp add: process_record_def envelope_rows_def split: sum.splits)

lemma flush_batch_keeps:
  "pending (flush_batch idx st) = pending st"
  "problematic_rows (flush_batch idx st) = problematic_rows st"
  "counted st \<Longrightarrow> counted (flush_batch idx st)"
  by (simp_all add: flush_batch_def pending_def counted_def)

lemma clean_rows_keeps:
  "pending (clean_rows rows st) = pending st @ map (map clean_cell) rows"
  "problematic_rows (clean_rows rows st) = problematic_rows st + issue_count rows"
  "counted st \<Longrightarrow> counted (clean_rows rows st)"
  by (simp_all add: clean_rows_eq pending_def counted_def)

lemma issue_count_append: "issue_count (xs @ ys) = issue_count xs + issue_count ys"
  by (simp add: issue_count_def)

lemma process_records_error:
  "all_envelope_rows record_objs = Inl e \<Longrightarrow> process_records idx record_objs st = Inl e"
  by (induction record_objs arbitrary: idx st) (auto simp: process_record_eq split: sum.splits)

lemma process_records_ok:
  "all_envelope_rows record_objs = Inr rows \<Longrightarrow>
     \<exists>st'. process_records idx record_objs st = Inr st'
       \<and> pending st' = pending st @ map (map clean_cell) rows
       \<and> problematic_rows st' = problematic_rows st + issue_count rows
       \<and> (counted st \<longrightarrow> counted st')"
proof (induction record_objs arbitrary: idx st rows)
  case Nil
  then show ?case by (auto simp: issue_count_def)
next
  case (Cons record_obj rest)
  from Cons.prems obtain r others where r: "envelope_rows record_obj = Inr r"
    and others: "all_envelope_rows rest = Inr others" and rows: "rows = r @ others"
    by (auto split: sum.splits)
  let ?st1 = "flush_batch idx (clean_rows r st)"
  from Cons.IH [OF others, of "idx + 1" ?st1] obtain st' where
    st': "process_records (idx + 1) rest ?st1 = Inr st'"
      "pending st' = pending ?st1 @ map (map clean_cell) others"
      "problematic_rows st' = problematic_rows ?st1 + issue_count others"
      "counted ?st1 \<longrightarrow> counted st'"
    by blast
  have "process_records idx (record_obj # rest) st = Inr st'"
    using r st'(1) by (simp add: process_record_eq)
  moreover have "pending st' = pending st @ map (map clean_cell) rows"
    using st'(2) rows by (simp add: flush_batch_keeps clean_rows_keeps)
  moreover have "problematic_rows st' = problematic_rows st + issue_count rows"
    using st'(3) rows by (simp add: flush_batch_keeps clean_rows_keeps issue_count_append)
  moreover have "counted st \<longrightarrow> counted st'"
    using st'(4) by (simp add: flush_batch_keeps clean_rows_keeps)
  ultimately show ?case by blast
qed

lemma final_flush_result:
  "csvfile (final_flush st) = pending st"
  "problematic_rows (final_flush st) = problematic_rows st"
  "counted st \<Longrightarrow> counted (final_flush st)"
  by (auto simp: final_flush_def pending_def counted_def)

text \<open>
  The whole run: when \<^verbatim>\<open>Records\<close> can be iterated and every envelope yields its rows, the
  file is the header followed by the cleaned rows of all envelopes in order, whatever the
  batch boundaries; otherwise the first exception ends the run.
\<close>

lemma run_csv_ok:
  assumes "loaded_records data = Inr record_objs" and "all_envelope_rows record_objs = Inr rows"
  shows "\<exists>st. run_csv data = Inr st
       \<and> csvfile st = header # map (map clean_cell) rows
       \<and> rows_written st = length rows
       \<and> problematic_rows st = issue_count rows"
proof -
  let ?st0 = "\<lparr>rows_written = 0, problematic_rows = 0, all_rows_batch = [], csvfile = [header]\<rparr>"
  have c0: "counted ?st0" by (simp add: counted_def)
  from process_records_ok [OF assms(2), of 0 ?st0] c0 obtain st' where
    st': "process_records 0 record_objs ?st0 = Inr st'"
      "pending st' = pending ?st0 @ map (map clean_cell) rows"
      "problematic_rows st' = problematic_rows ?st0 + issue_count rows"
      "counted st'"
    by blast
  have run: "run_csv data = Inr (final_flush st')"
    using assms(1) st'(1) by (auto simp: run_csv_def loaded_records_def split: sum.splits)
  have out: "csvfile (final_flush st') = header # map (map clean_cell) rows"
    using st'(2) by (simp add: final_flush_result pending_def)
  have "counted (final_flush st')" using st'(4) by (rule final_flush_result)
  with out have written: "rows_written (final_flush st') = length rows"
    by (simp add: counted_def)
  have "problematic_rows (final_flush st') = issue_count rows"
    using st'(3) by (simp add: final_flush_result)
  with run out written show ?thesis by blast
qed

lemma run_csv_error:
  "loaded_records data = Inl e \<Longrightarrow> run_csv data = Inl e"
  "loaded_records data = Inr record_objs \<Longrightarrow> all_envelope_rows record_objs = Inl e
     \<Longrightarrow> run_csv data = Inl e"
  by (auto simp: run_csv_def loaded_records_def process_records_error split: sum.splits)

lemma run_csv_Inr_rows:
  assumes "run_csv data = Inr st"
  shows "\<exists>record_objs rows. loaded_records data = Inr record_objs
     \<and> all_envelope_rows record_objs = Inr rows"
proof (cases "loaded_records data")
  case (Inl e)
  with assms run_csv_error(1) show ?thesis by fastforce
next
  case (Inr record_objs)
  show ?thesis
  proof (cases "all_envelope_rows record_objs")
    case (Inl e)
    with Inr assms run_csv_error(2) show ?thesis by fastforce
  next
    case r: (Inr rows)
    with Inr show ?thesis by blast
  qed
qed

lemma envelope_rows_shape:
  assumes "envelope_rows (JDict kvs) = Inr rows"
  shows "length rows = 7
    \<and> (\<forall>row \<in> set rows. row \<noteq> []
          \<and> row ! 0 = (case map_of kvs ''unique_id'' of Some v \<Rightarrow> v | None \<Rightarrow> JNull))"
  using assms by (auto simp: envelope_rows_def dest!: generate_all_rows_first)

lemma envelope_rows_length: "envelope_rows record_obj = Inr rows \<Longrightarrow> length rows = 7"
  by (cases record_obj) (auto simp: envelope_rows_shape envelope_rows_def)

lemma all_envelope_rows_nth:
  "all_envelope_rows record_objs = Inr rows \<Longrightarrow>
     length rows = 7 * length record_objs
     \<and> (\<forall>i<length record_objs. \<exists>r. envelope_rows (record_objs ! i) = Inr r
            \<and> (\<forall>j<7. rows ! (7 * i + j) = r ! j))"
proof (induction record_objs arbitrary: rows)
  case Nil
  then show ?case by simp
next
  case (Cons record_obj rest)
  from Cons.prems obtain r others where r: "envelope_rows record_obj = Inr r"
    and others: "all_envelope_rows rest = Inr others" and rows: "rows = r @ others"
    by (auto split: sum.splits)
  have lr: "length r = 7" using r by (rule envelope_rows_length)
  from Cons.IH [OF others] have len: "length others = 7 * length rest"
    and nth: "\<forall>i<length rest. \<exists>r'. envelope_rows (rest ! i) = Inr r'
            \<and> (\<forall>j<7. others ! (7 * i + j) = r' ! j)" by simp_all
  have "length rows = 7 * length (record_obj # rest)" using rows lr len by simp
  moreover have "\<forall>i<length (record_obj # rest).
      \<exists>r'. envelope_rows ((record_obj # rest) ! i) = Inr r'
            \<and> (\<forall>j<7. rows ! (7 * i + j) = r' ! j)"
  proof (intro allI impI)
    fix i assume i: "i < length (record_obj # rest)"
    show "\<exists>r'. envelope_rows ((record_obj # rest) ! i) = Inr r'
        \<and> (\<forall>j<7. rows ! (7 * i + j) = r' ! j)"
    proof (cases i)
      case 0
      then show ?thesis using r rows lr by (auto simp: nth_append)
    next
      case (Suc i')
      with i have "i' < length rest" by simp
      with nth obtain r' where r': "envelope_rows (rest ! i') = Inr r'"
        "\<forall>j<7. others ! (7 * i' + j) = r' ! j" by blast
      have "\<forall>j<7. rows ! (7 * i + j) = r' ! j"
      proof (intro allI impI)
        fix j :: nat assume j: "j < 7"
        have "7 * i + j = length r + (7 * i' + j)" using Suc lr by simp
        then have "rows ! (7 * i + j) = others ! (7 * i' + j)"
          unfolding rows by (simp only: nth_append_length_plus)
        with r'(2) j show "rows ! (7 * i + j) = r' ! j" by simp
      qed
      with r' Suc show ?thesis by simp
    qed
  qed
  ultimately show ?case by blast
qed

text \<open>Concrete runs: an envelope with neither \<^verbatim>\<open>record\<close> nor \<^verbatim>\<open>garbage_per_segment\<close>.\<close>

lemma bare_envelope_rows:
  assumes "map_of kvs ''record'' = None" and "map_of kvs ''garbage_per_segment'' = None"
  shows "envelope_rows (JDict kvs) =
     Inr (map (\<lambda>code. (case map_of kvs ''unique_id'' of Some v \<Rightarrow> v | None \<Rightarrow> JNull)
                 # JStr code # replicate 57 (JStr [])) segment_codes)"
  using assms
  by (simp add: envelope_rows_def generate_all_segment_rows_def append_row_def builder_defs
      empty_segment_row segment_codes_def)

lemma not_too_long_code: "code \<in> set segment_codes \<Longrightarrow> \<not> too_long (JStr code)"
  by (auto simp: segment_codes_def too_long_def py_strip_def py_isspace_def)

lemma not_too_long_empty: "\<not> too_long (JStr [])"
  by (simp add: too_long_def)

lemma issue_count_bare:
  "issue_count (map (\<lambda>code. u # JStr code # replicate 57 (JStr [])) segment_codes)
     = (if too_long u then 7 else 0)"
  by (simp add: issue_count_def segment_codes_def filter_replicate not_too_long_empty
      not_too_long_code [unfolded segment_codes_def])

lemma not_space_a: "\<not> py_isspace CHR ''a''"
  by (simp add: py_isspace_def)

lemma py_strip_letters: "py_strip (replicate n CHR ''a'') = replicate n CHR ''a''"
  by (simp add: py_strip_def not_space_a)

lemma too_long_letters: "too_long (JStr (replicate 8001 CHR ''a''))"
  by (simp add: too_long_def py_strip_letters)

lemma not_too_long_None: "\<not> too_long JNull"
  by (simp add: too_long_def py_strip_def py_isspace_def)

lemma clean_cell_None: "clean_cell JNull = ''None''"
  by (simp add: clean_cell_def py_strip_def py_isspace_def)


text \<open>
  A run over envelopes that carry at most a \<^verbatim>\<open>unique_id\<close>: each gives seven rows of its
  identity cell, its segment code and 57 empty cells.
\<close>

lemma segment_codes_length: "length segment_codes = 7"
  by (simp add: segment_codes_def)

lemma two_bare_envelopes:
  "all_envelope_rows [JDict [(''unique_id'', u)], JDict []]
     = Inr (map (\<lambda>code. u # JStr code # replicate 57 (JStr [])) segment_codes
          @ map (\<lambda>code. JNull # JStr code # replicate 57 (JStr [])) segment_codes)"
  by (simp add: bare_envelope_rows)

lemma run_two_bare_envelopes:
  "\<exists>st. run_csv (JDict [(''Records'', JList [JDict [(''unique_id'', u)], JDict []])]) = Inr st
     \<and> rows_written st = 14 \<and> problematic_rows st = (if too_long u then 7 else 0)"
proof -
  let ?data = "JDict [(''Records'', JList [JDict [(''unique_id'', u)], JDict []])]"
  have loaded: "loaded_records ?data = Inr [JDict [(''unique_id'', u)], JDict []]"
    by (simp add: loaded_records_def)
  from run_csv_ok [OF loaded two_bare_envelopes] obtain st where
    "run_csv ?data = Inr st"
    "rows_written st = length (map (\<lambda>code. u # JStr code # replicate 57 (JStr [])) segment_codes
          @ map (\<lambda>code. JNull # JStr code # replicate 57 (JStr [])) segment_codes)"
    "problematic_rows st = issue_count (map (\<lambda>code. u # JStr code # replicate 57 (JStr [])) segment_codes
          @ map (\<lambda>code. JNull # JStr code # replicate 57 (JStr [])) segment_codes)"
    by blast
  then show ?thesis
    by (simp add: issue_count_append issue_count_bare not_too_long_None segment_codes_length)
qed

text \<open>
  Claim C3 as amended. The pipeline returns one number, the total of rows written: the
  rows of the file after the header, seven for each envelope. The count of truncated
  cells is kept in \<^verbatim>\<open>problematic_rows\<close> and printed; it is no part of the returned value.
\<close>

theorem generate_csv_returns_rows_written:
  assumes "generate_csv_from_json data = Inr n"
  shows "\<exists>st record_objs. run_csv data = Inr st \<and> loaded_records data = Inr record_objs
     \<and> n = rows_written st \<and> n = 7 * length record_objs
     \<and> length (csvfile st) = Suc n \<and> hd (csvfile st) = header"
proof -
  from assms obtain st where run: "run_csv data = Inr st" and n: "n = rows_written st"
    by (auto simp: generate_csv_from_json_def split: sum.splits)
  from run_csv_Inr_rows [OF run] obtain record_objs rows where
    loaded: "loaded_records data = Inr record_objs"
    and rows: "all_envelope_rows record_objs = Inr rows"
    by blast
  from run_csv_ok [OF loaded rows] run have out: "csvfile st = header # map (map clean_cell) rows"
    and w: "rows_written st = length rows" by auto
  from all_envelope_rows_nth [OF rows] have "length rows = 7 * length record_objs" by simp
  with run loaded n out w show ?thesis by simp
qed

theorem generate_csv_returns_rows_written_witness:
  "generate_csv_from_json (JDict [(''Records'', JList [JDict [(''unique_id'', JStr ''U1'')], JDict []])])
     = Inr 14
   \<and> (\<exists>st. run_csv (JDict [(''Records'', JList [JDict [(''unique_id'', JStr ''U1'')], JDict []])]) = Inr st
        \<and> rows_written st = 14 \<and> length (csvfile st) = 15 \<and> hd (csvfile st) = header)"
proof -
  let ?data = "JDict [(''Records'', JList [JDict [(''unique_id'', JStr ''U1'')], JDict []])]"
  from run_two_bare_envelopes [of "JStr ''U1''"] obtain st0 where
    "run_csv ?data = Inr st0" "rows_written st0 = 14" by blast
  then have ret: "generate_csv_from_json ?data = Inr 14"
    by (simp add: generate_csv_from_json_def)
  from generate_csv_returns_rows_written [OF ret] obtain st where
    "run_csv ?data = Inr st" "14 = rows_written st" "length (csvfile st) = Suc 14"
    "hd (csvfile st) = header"
    by blast
  then have "\<exists>st. run_csv ?data = Inr st
        \<and> rows_written st = 14 \<and> length (csvfile st) = 15 \<and> hd (csvfile st) = header"
    by (intro exI [of _ st]) simp
  with ret show ?thesis by simp
qed

text \<open>
  Claim C3 as stated fails: the returned value carries no issue count. Of two documents of
  two envelopes each, the first has a \<^verbatim>\<open>unique_id\<close> of 8001 letters, truncated in each of
  its seven rows; the runs count 7 and 0 issues and return the same value, 14.
\<close>

theorem generate_csv_returns_no_issue_count:
  "generate_csv_from_json
      (JDict [(''Records'', JList [JDict [(''unique_id'', JStr (replicate 8001 CHR ''a''))], JDict []])])
     = Inr 14
   \<and> map_sum id problematic_rows (run_csv
      (JDict [(''Records'', JList [JDict [(''unique_id'', JStr (replicate 8001 CHR ''a''))], JDict []])]))
     = Inr 7
   \<and> generate_csv_from_json
      (JDict [(''Records'', JList [JDict [(''unique_id'', JStr ''U1'')], JDict []])])
     = Inr 14
   \<and> map_sum id problematic_rows (run_csv
      (JDict [(''Records'', JList [JDict [(''unique_id'', JStr ''U1'')], JDict []])]))
     = Inr 0"
proof -
  have short: "\<not> too_long (JStr ''U1'')"
    by (simp add: too_long_def py_strip_def py_isspace_def)
  from run_two_bare_envelopes [of "JStr (replicate 8001 CHR ''a'')"] too_long_letters
  obtain st1 where st1: "run_csv (JDict [(''Records'',
      JList [JDict [(''unique_id'', JStr (replicate 8001 CHR ''a''))], JDict []])]) = Inr st1"
    "rows_written st1 = 14" "problematic_rows st1 = 7"
    by auto
  from run_two_bare_envelopes [of "JStr ''U1''"] short
  obtain st2 where st2: "run_csv (JDict [(''Records'',
      JList [JDict [(''unique_id'', JStr ''U1'')], JDict []])]) = Inr st2"
    "rows_written st2 = 14" "problematic_rows st2 = 0"
    by auto
  from st1 st2 show ?thesis by (simp add: generate_csv_from_json_def)
qed






text \<open>
  Claim C9. For every envelope that lacks the key \<^verbatim>\<open>unique_id\<close>, each of its 7 emitted
  rows carries the string \<^verbatim>\<open>None\<close> in the \<^verbatim>\<open>Unique_ID\<close> column: the rows of envelope \<open>i\<close>
  are rows \<open>1 + 7 * i\<close> to \<open>7 + 7 * i\<close> of the file (row 0 is the header).
\<close>

theorem missing_unique_id_written_as_None:
  assumes run: "run_csv data = Inr st"
    and recs: "py_get data ''Records'' (JList []) = Inr (JList record_objs)"
    and i: "i < length record_objs"
    and env: "record_objs ! i = JDict kvs"
    and nokey: "map_of kvs ''unique_id'' = None"
    and j: "j < 7"
  shows "csvfile st ! (1 + 7 * i + j) ! 0 = ''None''"
proof -
  have loaded: "loaded_records data = Inr record_objs"
    using recs by (simp add: loaded_records_def)
  from run_csv_Inr_rows [OF run] loaded obtain rows where
    rows: "all_envelope_rows record_objs = Inr rows"
    by auto
  from run_csv_ok [OF loaded rows] run have out: "csvfile st = header # map (map clean_cell) rows"
    by auto
  from all_envelope_rows_nth [OF rows] i obtain r where len: "length rows = 7 * length record_objs"
    and r: "envelope_rows (record_objs ! i) = Inr r"
    and nth: "\<forall>j<7. rows ! (7 * i + j) = r ! j" by blast
  from r env have er: "envelope_rows (JDict kvs) = Inr r" by simp
  from envelope_rows_shape [OF er] have lr: "length r = 7"
    and cells: "\<forall>row \<in> set r. row \<noteq> [] \<and> row ! 0 = JNull" using nokey by simp_all
  from lr j have "r ! j \<in> set r" by simp
  with cells have cell: "r ! j ! 0 = JNull" and rowlen: "r ! j \<noteq> []" by blast+
  have inb: "7 * i + j < length rows" using len i j by simp
  have "csvfile st ! (1 + 7 * i + j) = map clean_cell (rows ! (7 * i + j))" using out inb by simp
  also have "\<dots> = map clean_cell (r ! j)" using nth j by simp
  finally show ?thesis using cell rowlen by (simp add: nth_map clean_cell_None)
qed

theorem missing_unique_id_written_as_None_witness:
  "\<exists>st. run_csv (JDict [(''Records'', JList [JDict [(''unique_id'', JStr ''U1'')], JDict []])]) = Inr st
     \<and> csvfile st ! 8 ! 0 = ''None'' \<and> csvfile st ! 14 ! 0 = ''None''"
proof -
  let ?data = "JDict [(''Records'', JList [JDict [(''unique_id'', JStr ''U1'')], JDict []])]"
  from run_two_bare_envelopes [of "JStr ''U1''"] obtain st where run: "run_csv ?data = Inr st"
    by blast
  have recs: "py_get ?data ''Records'' (JList [])
      = Inr (JList [JDict [(''unique_id'', JStr ''U1'')], JDict []])" by simp
  have i: "1 < length [JDict [(''unique_id'', JStr ''U1'')], JDict []]" by simp
  have env: "[JDict [(''unique_id'', JStr ''U1'')], JDict []] ! 1 = JDict []" by simp
  have nokey: "map_of ([] :: (string \<times> json) list) ''unique_id'' = None" by simp
  from missing_unique_id_written_as_None [OF run recs i env nokey, of 0]
  have first: "csvfile st ! 8 ! 0 = ''None''" by simp
  from missing_unique_id_written_as_None [OF run recs i env nokey, of 6]
  have last: "csvfile st ! 14 ! 0 = ''None''" by simp
  from run first last show ?thesis by blast
qed










end
